theory Spec2Isabelle
  imports Complex_Main
begin

section \<open>Data model of the rhythm game\<close>

text \<open>
  The source file holds three successive versions of the component \<open>RhythmGame\<close>. The
  development embeds the most developed one (key modes and difficulty levels, source
  lines 485 to 1310), which is the one the specification describes.

  JavaScript numbers that carry a time or a position are modelled as \<open>real\<close>, so
  their arithmetic is exact where the code rounds to floating point; the
  counters of \<open>GameStats\<close>, which start at 0 and are only ever incremented or reset to 0,
  are \<open>nat\<close>. React state (\<open>useState\<close>) and refs (\<open>useRef\<close>) are the fields of one
  record \<open>game\<close> (the states \<open>notes\<close> and \<open>judgment\<close> are the fields \<open>noteList\<close> and \<open>judgmentLabel\<close>). Every handler is one function from \<open>game\<close> to \<open>game\<close>: the values a
  handler reads through its closure (\<open>notes\<close>, \<open>pressedKeys\<close>, \<open>gameState\<close>) are those of
  the state it starts from, and the functional updates it queues (\<open>setNotes (prev => ...)\<close>,
  \<open>setStats (prev => ...)\<close>) are applied in the order they are queued. DOM elements,
  toasts and the timer that clears the judgment label after 500 ms are presentation
  and are left out.
\<close>

record Note =
  noteId :: nat
  lane :: nat
  startTime :: real
  currentY :: real
  hit :: bool

record GameStats =
  score :: nat
  combo :: nat
  maxCombo :: nat
  perfect :: nat
  good :: nat
  miss :: nat

datatype gameState = Menu | Playing | Paused | Ended

datatype keyMode = Keys4 | Keys6 | Keys8

datatype difficulty = Easy | Normal | Hard

record game =
  gameState :: gameState
  noteList :: "Note list"
  stats :: GameStats
  pressedKeys :: "nat set"
  judgmentLabel :: "(string \<times> string) option"
  speedMultiplier :: real
  keyMode :: keyMode
  difficulty :: difficulty
  startTimeRef :: real
  pauseTimeRef :: real
  noteIdRef :: nat

definition BASE_NOTE_SPEED :: real where
  "BASE_NOTE_SPEED = 350"

definition JUDGMENT_LINE_Y :: real where
  "JUDGMENT_LINE_Y = 500"

definition PERFECT_THRESHOLD :: real where
  "PERFECT_THRESHOLD = 40"

definition GOOD_THRESHOLD :: real where
  "GOOD_THRESHOLD = 80"

lemmas thresholds =
  BASE_NOTE_SPEED_def JUDGMENT_LINE_Y_def PERFECT_THRESHOLD_def GOOD_THRESHOLD_def

section \<open>Judgment: \<open>checkNoteHit\<close>\<close>

text \<open>The predicate of \<open>notes.filter\<close> at the head of \<open>checkNoteHit\<close>.\<close>

definition inHitWindow :: "nat \<Rightarrow> Note \<Rightarrow> bool" where
  "inHitWindow l n \<longleftrightarrow>
     lane n = l \<and> \<not> hit n \<and>
     currentY n > JUDGMENT_LINE_Y - GOOD_THRESHOLD \<and>
     currentY n < JUDGMENT_LINE_Y + GOOD_THRESHOLD"

definition laneNotes :: "game \<Rightarrow> nat \<Rightarrow> Note list" where
  "laneNotes g l = filter (inHitWindow l) (noteList g)"

text \<open>The callback of \<open>laneNotes.reduce\<close>: the accumulator is kept unless the next note is
  strictly nearer to the judgment line.\<close>

definition nearer :: "Note \<Rightarrow> Note \<Rightarrow> Note" where
  "nearer closest n =
     (let currentDistance = \<bar>currentY n - JUDGMENT_LINE_Y\<bar>;
          closestDistance = \<bar>currentY closest - JUDGMENT_LINE_Y\<bar>
      in if currentDistance < closestDistance then n else closest)"

text \<open>\<open>Array.prototype.reduce\<close> without an initial value: the first element starts the
  accumulator. On the empty array JavaScript throws; \<open>checkNoteHit\<close> returns before.\<close>

fun reduce1 :: "('a \<Rightarrow> 'a \<Rightarrow> 'a) \<Rightarrow> 'a list \<Rightarrow> 'a option" where
  "reduce1 f [] = None"
| "reduce1 f (x # xs) = Some (foldl f x xs)"

definition closestNote :: "game \<Rightarrow> nat \<Rightarrow> Note option" where
  "closestNote g l = reduce1 nearer (laneNotes g l)"

text \<open>The updater \<open>prev.map (note => note.id === id ? {...note, hit: true} : note)\<close>.\<close>

definition markHit :: "nat \<Rightarrow> Note list \<Rightarrow> Note list" where
  "markHit i ns = map (\<lambda>n. if noteId n = i then n\<lparr>hit := True\<rparr> else n) ns"

text \<open>The combo tier \<open>Math.max(1, Math.floor(prev.combo / 10) + 1)\<close>.\<close>

definition comboTier :: "nat \<Rightarrow> nat" where
  "comboTier c = max 1 (c div 10 + 1)"

definition perfectUpdate :: "GameStats \<Rightarrow> GameStats" where
  "perfectUpdate prev =
     prev\<lparr>perfect := perfect prev + 1, combo := combo prev + 1,
          score := score prev + 1000 * comboTier (combo prev)\<rparr>"

definition goodUpdate :: "GameStats \<Rightarrow> GameStats" where
  "goodUpdate prev =
     prev\<lparr>good := good prev + 1, combo := combo prev + 1,
          score := score prev + 500 * comboTier (combo prev)\<rparr>"

definition checkNoteHit :: "nat \<Rightarrow> game \<Rightarrow> game" where
  "checkNoteHit l g =
     (case closestNote g l of
        None \<Rightarrow> g
      | Some c \<Rightarrow>
          (let distance = \<bar>currentY c - JUDGMENT_LINE_Y\<bar> in
           if distance < PERFECT_THRESHOLD then
             g\<lparr>stats := perfectUpdate (stats g),
               judgmentLabel := Some (''PERFECT!'', ''text-yellow-400''),
               noteList := markHit (noteId c) (noteList g)\<rparr>
           else if distance < GOOD_THRESHOLD then
             g\<lparr>stats := goodUpdate (stats g),
               judgmentLabel := Some (''GOOD'', ''text-green-400''),
               noteList := markHit (noteId c) (noteList g)\<rparr>
           else g))"

section \<open>Keyboard input\<close>

text \<open>The tables \<open>KEY_MODES[keyMode].keyMap\<close>; a code that is not a key of the table
  reads \<open>undefined\<close>.\<close>

definition keyMap :: "keyMode \<Rightarrow> string \<Rightarrow> nat option" where
  "keyMap m code =
     (case m of
        Keys4 \<Rightarrow>
          map_of [(''KeyA'', 0), (''ArrowLeft'', 0), (''KeyS'', 1), (''ArrowDown'', 1),
                  (''KeyD'', 2), (''ArrowUp'', 2), (''KeyF'', 3), (''ArrowRight'', 3)] code
      | Keys6 \<Rightarrow>
          map_of [(''KeyA'', 0), (''KeyS'', 1), (''KeyD'', 2), (''KeyJ'', 3),
                  (''KeyK'', 4), (''KeyL'', 5)] code
      | Keys8 \<Rightarrow>
          map_of [(''KeyA'', 0), (''KeyS'', 1), (''KeyD'', 2), (''KeyF'', 3),
                  (''KeyJ'', 4), (''KeyK'', 5), (''KeyL'', 6), (''Semicolon'', 7)] code)"

definition handleKeyDown :: "string \<Rightarrow> game \<Rightarrow> game" where
  "handleKeyDown code g =
     (if gameState g \<noteq> Playing then g
      else case keyMap (keyMode g) code of
        None \<Rightarrow> g
      | Some l \<Rightarrow>
          if l \<in> pressedKeys g then g
          else checkNoteHit l (g\<lparr>pressedKeys := insert l (pressedKeys g)\<rparr>))"

definition handleKeyUp :: "string \<Rightarrow> game \<Rightarrow> game" where
  "handleKeyUp code g =
     (case keyMap (keyMode g) code of
        None \<Rightarrow> g
      | Some l \<Rightarrow> g\<lparr>pressedKeys := pressedKeys g - {l}\<rparr>)"

section \<open>Clock, motion and miss sweep: \<open>gameLoop\<close> and \<open>togglePause\<close>\<close>

record difficultyConfig =
  noteIntervalMin :: real
  noteIntervalMax :: real
  patternComplexity :: real
  difficultySpeed :: real

text \<open>The table \<open>DIFFICULTY_SETTINGS\<close> (\<open>difficultySpeed\<close> is its field \<open>speedMultiplier\<close>).\<close>

definition DIFFICULTY_SETTINGS :: "difficulty \<Rightarrow> difficultyConfig" where
  "DIFFICULTY_SETTINGS d =
     (case d of
        Easy \<Rightarrow> \<lparr>noteIntervalMin = 800, noteIntervalMax = 1200,
                  patternComplexity = 3 / 10, difficultySpeed = 8 / 10\<rparr>
      | Normal \<Rightarrow> \<lparr>noteIntervalMin = 400, noteIntervalMax = 800,
                    patternComplexity = 6 / 10, difficultySpeed = 1\<rparr>
      | Hard \<Rightarrow> \<lparr>noteIntervalMin = 200, noteIntervalMax = 600,
                  patternComplexity = 1, difficultySpeed = 12 / 10\<rparr>)"

text \<open>The reference point of the clock: \<open>startTimeRef.current\<close> counts as unset when it is
  falsy, that is 0; the frame then fixes it to \<open>timestamp - pauseTimeRef.current\<close>.\<close>

definition startReference :: "real \<Rightarrow> game \<Rightarrow> real" where
  "startReference timestamp g =
     (if startTimeRef g = 0 then timestamp - pauseTimeRef g else startTimeRef g)"

definition elapsed :: "real \<Rightarrow> game \<Rightarrow> real" where
  "elapsed timestamp g = timestamp - startReference timestamp g"

text \<open>The first updater of \<open>gameLoop\<close>: a note that is hit is returned as it is, any
  other gets the position of this frame.\<close>

definition moveNote :: "real \<Rightarrow> real \<Rightarrow> real \<Rightarrow> Note \<Rightarrow> Note" where
  "moveNote el speed dspeed n =
     (if hit n then n
      else (let noteTime = el - startTime n;
                newY = (noteTime / 1000) * BASE_NOTE_SPEED * speed * dspeed
            in n\<lparr>currentY := newY\<rparr>))"

definition missUpdate :: "GameStats \<Rightarrow> GameStats" where
  "missUpdate prev =
     prev\<lparr>miss := miss prev + 1, combo := 0, maxCombo := max (maxCombo prev) (combo prev)\<rparr>"

text \<open>The body of \<open>notes.forEach\<close> in \<open>gameLoop\<close>. It runs over the array \<open>notes\<close> of the
  closure, so \<open>note.currentY\<close> and \<open>note.hit\<close> are the values stored when the frame
  starts; what it queues (\<open>setStats\<close>, \<open>setNotes\<close>) acts on the pair of pending stats and
  pending notes.\<close>

definition missCheck :: "Note \<Rightarrow> GameStats \<times> Note list \<Rightarrow> GameStats \<times> Note list" where
  "missCheck n acc =
     (if hit n then acc
      else if currentY n > JUDGMENT_LINE_Y + GOOD_THRESHOLD \<and> \<not> hit n
           then (missUpdate (fst acc), markHit (noteId n) (snd acc))
           else acc)"

definition gameLoop :: "real \<Rightarrow> game \<Rightarrow> game" where
  "gameLoop timestamp g =
     (let start = startReference timestamp g;
          el = timestamp - start;
          moved = map (moveNote el (speedMultiplier g)
                         (difficultySpeed (DIFFICULTY_SETTINGS (difficulty g)))) (noteList g);
          swept = fold missCheck (noteList g) (stats g, moved)
      in g\<lparr>startTimeRef := start, noteList := snd swept, stats := fst swept\<rparr>)"

text \<open>\<open>togglePause\<close>; the argument \<open>now\<close> is the reading of \<open>performance.now()\<close>.\<close>

definition togglePause :: "real \<Rightarrow> game \<Rightarrow> game" where
  "togglePause now g =
     (if gameState g = Playing then
        g\<lparr>gameState := Paused,
          pauseTimeRef := (if startTimeRef g \<noteq> 0 then now - startTimeRef g
                           else pauseTimeRef g)\<rparr>
      else if gameState g = Paused then
        g\<lparr>gameState := Playing, startTimeRef := 0\<rparr>
      else g)"

text \<open>The events of a session. A frame runs \<open>gameLoop\<close> only while the state is
  \<open>playing\<close>: the effect on \<open>[gameState, gameLoop]\<close> requests an animation frame in that
  state and cancels the pending one in every other.\<close>

datatype event = Frame real | KeyDown string | KeyUp string | TogglePause real

fun step :: "event \<Rightarrow> game \<Rightarrow> game" where
  "step (Frame timestamp) g = (if gameState g = Playing then gameLoop timestamp g else g)"
| "step (KeyDown code) g = handleKeyDown code g"
| "step (KeyUp code) g = handleKeyUp code g"
| "step (TogglePause now) g = togglePause now g"

definition run :: "event list \<Rightarrow> game \<Rightarrow> game" where
  "run es g = fold step es g"

section \<open>Chart generation: \<open>generateNotes\<close>\<close>

text \<open>
  \<open>Math.random()\<close> is modelled by a list of reals that is consumed from the front, one
  element per call, in the order of the calls. A list that runs out is an artefact of
  the model (\<open>RandomExhausted\<close>); \<open>TypeError\<close> is what JavaScript throws when
  \<open>selectedPattern\<close> is \<open>undefined\<close> at \<open>selectedPattern.forEach\<close>.
\<close>

datatype genError = RandomExhausted | TypeError

definition lanesOf :: "keyMode \<Rightarrow> nat" where
  "lanesOf m = (case m of Keys4 \<Rightarrow> 4 | Keys6 \<Rightarrow> 6 | Keys8 \<Rightarrow> 8)"

definition generatePatterns :: "nat \<Rightarrow> difficulty \<Rightarrow> nat list list" where
  "generatePatterns lanes d =
     (let diffConfig = DIFFICULTY_SETTINGS d;
          singles = map (\<lambda>i. [i]) [0..<lanes];
          doubles =
            (if patternComplexity diffConfig \<ge> 6 / 10
             then concat (map (\<lambda>i. [i, i + 1] # (if i < lanes - 2 then [[i, i + 2]] else []))
                            [0..<lanes - 1])
             else []);
          triples =
            (if patternComplexity diffConfig \<ge> 1 \<and> lanes \<ge> 6
             then map (\<lambda>i. [i, i + 1, i + 2]) [0..<lanes - 2]
             else []);
          quads =
            (if patternComplexity diffConfig \<ge> 1 \<and> lanes \<ge> 8
             then [[0, 1, 2, 3], [4, 5, 6, 7], [0, 2, 4, 6], [1, 3, 5, 7]]
             else []);
          patterns = singles @ doubles @ triples @ quads
      in if d = Easy then filter (\<lambda>pattern. length pattern \<le> 2) patterns else patterns)"

text \<open>An array read \<open>xs[i]\<close>: \<open>undefined\<close> outside the array.\<close>

definition jsIndex :: "'a list \<Rightarrow> int \<Rightarrow> 'a option" where
  "jsIndex xs i = (if 0 \<le> i \<and> i < int (length xs) then Some (xs ! nat i) else None)"

text \<open>\<open>xs[Math.floor(r * xs.length)]\<close>.\<close>

definition pick :: "'a list \<Rightarrow> real \<Rightarrow> 'a option" where
  "pick xs r = jsIndex xs \<lfloor>r * real (length xs)\<rfloor>"

text \<open>The choice of \<open>selectedPattern\<close>, with the rest of the random list. On \<open>easy\<close> the
  first random decides between a single and a double pattern and the second one indexes;
  \<open>doubleNotes[...] || singleNotes[0]\<close> falls back when the read is \<open>undefined\<close>.\<close>

definition selectPattern ::
    "difficulty \<Rightarrow> nat list list \<Rightarrow> real list \<Rightarrow> genError + (nat list \<times> real list)" where
  "selectPattern d patterns rs =
     (if d = Easy then
        (case rs of
           r1 # r2 # rest \<Rightarrow>
             (let singleNotes = filter (\<lambda>p. length p = 1) patterns;
                  doubleNotes = filter (\<lambda>p. length p = 2) patterns;
                  selected =
                    (if r1 < 7 / 10 then pick singleNotes r2
                     else (case pick doubleNotes r2 of
                             Some p \<Rightarrow> Some p
                           | None \<Rightarrow> jsIndex singleNotes 0))
              in case selected of None \<Rightarrow> Inl TypeError | Some p \<Rightarrow> Inr (p, rest))
         | _ \<Rightarrow> Inl RandomExhausted)
      else
        (case rs of
           r # rest \<Rightarrow>
             (case pick patterns r of None \<Rightarrow> Inl TypeError | Some p \<Rightarrow> Inr (p, rest))
         | [] \<Rightarrow> Inl RandomExhausted))"

text \<open>\<open>selectedPattern.forEach\<close>: one note per lane of the pattern, the identifiers taken
  from \<open>noteIdRef.current++\<close>.\<close>

fun emit :: "nat list \<Rightarrow> real \<Rightarrow> nat \<Rightarrow> Note list" where
  "emit [] time nid = []"
| "emit (l # ls) time nid =
     \<lparr>noteId = nid, lane = l, startTime = time, currentY = - 100, hit = False\<rparr>
       # emit ls time (Suc nid)"

text \<open>The \<open>for\<close> loop of \<open>generateNotes\<close> from the cursor \<open>time\<close> on; it returns \<open>newNotes\<close>
  and the next free identifier. Each round consumes the randoms of the selection and
  then the one of the increment.\<close>

function generateLoop ::
    "difficulty \<Rightarrow> nat list list \<Rightarrow> real \<Rightarrow> nat \<Rightarrow> real list \<Rightarrow> Note list
       \<Rightarrow> genError + (Note list \<times> nat)" where
  "generateLoop d patterns time nid rs newNotes =
     (if time < 90000 then
        (case selectPattern d patterns rs of
           Inl e \<Rightarrow> Inl e
         | Inr (selectedPattern, rs') \<Rightarrow>
             (case rs' of
                [] \<Rightarrow> Inl RandomExhausted
              | r # rs'' \<Rightarrow>
                  generateLoop d patterns
                    (time + (noteIntervalMin (DIFFICULTY_SETTINGS d)
                       + r * (noteIntervalMax (DIFFICULTY_SETTINGS d)
                                - noteIntervalMin (DIFFICULTY_SETTINGS d))))
                    (nid + length selectedPattern) rs''
                    (newNotes @ emit selectedPattern time nid)))
      else Inr (newNotes, nid))"
  by pat_completeness auto
termination
proof (relation "measure (\<lambda>(d, patterns, time, nid, rs, newNotes). length rs)")
  show "wf (measure (\<lambda>(d, patterns, time, nid, rs, newNotes). length rs))"
    by simp
next
  fix d :: difficulty and patterns :: "nat list list" and time :: real and nid :: nat
    and rs :: "real list" and newNotes :: "Note list" and x2 x1 x2a x21 x22
  assume sel: "selectPattern d patterns rs = Inr x2" and x2: "(x1, x2a) = x2"
    and x2a: "x2a = x21 # x22"
  from sel x2 have "length x2a \<le> length rs"
    by (auto simp: selectPattern_def Let_def split: if_splits list.splits option.splits)
  with x2a show "((d, patterns,
        time + (noteIntervalMin (DIFFICULTY_SETTINGS d)
          + x21 * (noteIntervalMax (DIFFICULTY_SETTINGS d)
                     - noteIntervalMin (DIFFICULTY_SETTINGS d))),
        nid + length x1, x22, newNotes @ emit x1 time nid),
       (d, patterns, time, nid, rs, newNotes))
      \<in> measure (\<lambda>(d, patterns, time, nid, rs, newNotes). length rs)"
    by simp
qed

text \<open>\<open>generateNotes\<close>: the patterns, the loop from 3000 ms, and
  \<open>newNotes.sort ((a, b) => a.startTime - b.startTime)\<close>, a stable sort on the start time.\<close>

definition generateNotes ::
    "keyMode \<Rightarrow> difficulty \<Rightarrow> nat \<Rightarrow> real list \<Rightarrow> genError + (Note list \<times> nat)" where
  "generateNotes m d nid rs =
     (case generateLoop d (generatePatterns (lanesOf m) d) 3000 nid rs [] of
        Inl e \<Rightarrow> Inl e
      | Inr (newNotes, nid') \<Rightarrow> Inr (sort_key startTime newNotes, nid'))"

section \<open>Session life cycle\<close>

definition initialStats :: GameStats where
  "initialStats = \<lparr>score = 0, combo = 0, maxCombo = 0, perfect = 0, good = 0, miss = 0\<rparr>"

text \<open>The state of the component when it is mounted (the \<open>useState\<close> and \<open>useRef\<close>
  initial values).\<close>

definition initialGame :: game where
  "initialGame =
     \<lparr>gameState = Menu, noteList = [], stats = initialStats, pressedKeys = {},
      judgmentLabel = None, speedMultiplier = 1, keyMode = Keys4, difficulty = Normal,
      startTimeRef = 0, pauseTimeRef = 0, noteIdRef = 0\<rparr>"

definition startGame :: "real list \<Rightarrow> game \<Rightarrow> genError + game" where
  "startGame rs g =
     (case generateNotes (keyMode g) (difficulty g) (noteIdRef g) rs of
        Inl e \<Rightarrow> Inl e
      | Inr (newNotes, nid') \<Rightarrow>
          Inr (g\<lparr>noteList := newNotes, stats := initialStats, startTimeRef := 0,
                 pauseTimeRef := 0, gameState := Playing, noteIdRef := nid'\<rparr>))"

definition resetGame :: "game \<Rightarrow> game" where
  "resetGame g = g\<lparr>gameState := Menu, noteList := [], startTimeRef := 0, pauseTimeRef := 0\<rparr>"

section \<open>Auxiliary notions used in the statements\<close>

text \<open>The condition under which \<open>missCheck\<close> acts on a note.\<close>

definition isMissed :: "Note \<Rightarrow> bool" where
  "isMissed n \<longleftrightarrow> \<not> hit n \<and> currentY n > JUDGMENT_LINE_Y + GOOD_THRESHOLD"

text \<open>Marking every note whose identifier is in a set.\<close>

definition markAll :: "nat set \<Rightarrow> Note list \<Rightarrow> Note list" where
  "markAll M ns = map (\<lambda>n. if noteId n \<in> M then n\<lparr>hit := True\<rparr> else n) ns"

definition counted :: "GameStats \<Rightarrow> nat" where
  "counted s = perfect s + good s + miss s"

definition resolvedCount :: "game \<Rightarrow> nat" where
  "resolvedCount g = length (filter hit (noteList g))"

text \<open>An event releases lane \<open>l\<close> when it is a key-up whose code maps to \<open>l\<close>.\<close>

definition releases :: "keyMode \<Rightarrow> nat \<Rightarrow> event \<Rightarrow> bool" where
  "releases m l e = (case e of KeyUp code \<Rightarrow> keyMap m code = Some l | _ \<Rightarrow> False)"

section \<open>Concrete sessions used as test inputs\<close>

definition mkNote :: "nat \<Rightarrow> nat \<Rightarrow> real \<Rightarrow> real \<Rightarrow> Note" where
  "mkNote i l t y = \<lparr>noteId = i, lane = l, startTime = t, currentY = y, hit = False\<rparr>"

text \<open>A session in the state \<open>playing\<close> (four keys, normal difficulty, speed 1, fresh
  stats) over a given list of notes.\<close>

definition playingWith :: "Note list \<Rightarrow> game" where
  "playingWith ns =
     initialGame\<lparr>gameState := Playing, noteList := ns, noteIdRef := length ns\<rparr>"

definition twoInWindow :: game where
  "twoInWindow = playingWith [mkNote 0 0 3000 530, mkNote 1 0 3500 490, mkNote 2 1 3500 490]"

definition onLine :: game where
  "onLine = playingWith [mkNote 0 0 3000 500]"

definition boundaryNotes :: game where
  "boundaryNotes = playingWith [mkNote 0 0 3000 540, mkNote 1 1 3000 580, mkNote 2 2 3000 539]"


text \<open>One note of lane 0, due at 3000 ms, stored at the position of the frame at
  elapsed time 4650 ms (577.5, inside the good window); the clock reference is 1000.\<close>

definition crossingNote :: game where
  "crossingNote = (playingWith [mkNote 0 0 3000 (1155 / 2)])\<lparr>startTimeRef := 1000\<rparr>"

definition lateNotes :: game where
  "lateNotes =
     (playingWith [mkNote 0 0 3000 590, mkNote 1 1 3200 570, mkNote 2 2 3000 600])
       \<lparr>startTimeRef := 1000,
         stats := \<lparr>score = 3000, combo = 3, maxCombo = 1, perfect = 3, good = 0, miss = 0\<rparr>\<rparr>"

definition hitThenLate :: game where
  "hitThenLate = playingWith [mkNote 0 0 3000 500, mkNote 1 1 3000 500]"

lemmas model_defs =
  run_def handleKeyDown_def handleKeyUp_def togglePause_def gameLoop_def checkNoteHit_def
  closestNote_def laneNotes_def inHitWindow_def nearer_def markHit_def missCheck_def
  moveNote_def missUpdate_def perfectUpdate_def goodUpdate_def comboTier_def
  startReference_def keyMap_def DIFFICULTY_SETTINGS_def initialGame_def initialStats_def
  playingWith_def mkNote_def thresholds Let_def

declare generateLoop.simps [simp del]

section \<open>Facts about \<open>checkNoteHit\<close>\<close>

lemma foldl_nearer_mem: "foldl nearer x xs \<in> set (x # xs)"
  by (induction xs arbitrary: x) (auto simp: nearer_def Let_def)

lemma foldl_nearer_le_acc:
  "\<bar>currentY (foldl nearer x xs) - JUDGMENT_LINE_Y\<bar> \<le> \<bar>currentY x - JUDGMENT_LINE_Y\<bar>"
proof (induction xs arbitrary: x)
  case Nil
  show ?case by simp
next
  case (Cons y ys)
  have "\<bar>currentY (nearer x y) - JUDGMENT_LINE_Y\<bar> \<le> \<bar>currentY x - JUDGMENT_LINE_Y\<bar>"
    by (simp add: nearer_def Let_def)
  with Cons.IH [of "nearer x y"] show ?case by simp
qed

lemma foldl_nearer_min:
  "n \<in> set (x # xs) \<Longrightarrow>
   \<bar>currentY (foldl nearer x xs) - JUDGMENT_LINE_Y\<bar> \<le> \<bar>currentY n - JUDGMENT_LINE_Y\<bar>"
proof (induction xs arbitrary: x)
  case Nil
  then show ?case by simp
next
  case (Cons y ys)
  have step: "\<bar>currentY (nearer x y) - JUDGMENT_LINE_Y\<bar> \<le> \<bar>currentY x - JUDGMENT_LINE_Y\<bar>"
    "\<bar>currentY (nearer x y) - JUDGMENT_LINE_Y\<bar> \<le> \<bar>currentY y - JUDGMENT_LINE_Y\<bar>"
    by (simp_all add: nearer_def Let_def)
  from Cons.prems consider "n = x" | "n = y" | "n \<in> set ys" by auto
  then show ?case
  proof cases
    case 1
    with step(1) foldl_nearer_le_acc [of "nearer x y" ys] show ?thesis by simp
  next
    case 2
    with step(2) foldl_nearer_le_acc [of "nearer x y" ys] show ?thesis by simp
  next
    case 3
    with Cons.IH [of "nearer x y"] show ?thesis by simp
  qed
qed

lemma closestNote_None: "closestNote g l = None \<longleftrightarrow> laneNotes g l = []"
  by (cases "laneNotes g l") (simp_all add: closestNote_def)

lemma closestNote_mem: "closestNote g l = Some c \<Longrightarrow> c \<in> set (laneNotes g l)"
  using foldl_nearer_mem by (cases "laneNotes g l") (auto simp: closestNote_def)

lemma closestNote_min:
  "closestNote g l = Some c \<Longrightarrow> n \<in> set (laneNotes g l) \<Longrightarrow>
   \<bar>currentY c - JUDGMENT_LINE_Y\<bar> \<le> \<bar>currentY n - JUDGMENT_LINE_Y\<bar>"
  using foldl_nearer_min by (cases "laneNotes g l") (auto simp: closestNote_def)

lemma inHitWindow_distance:
  "inHitWindow l n \<longleftrightarrow> lane n = l \<and> \<not> hit n \<and> \<bar>currentY n - JUDGMENT_LINE_Y\<bar> < GOOD_THRESHOLD"
  by (auto simp: inHitWindow_def)

lemma closestNote_window: "closestNote g l = Some c \<Longrightarrow> inHitWindow l c"
  by (drule closestNote_mem) (simp add: laneNotes_def)

lemma checkNoteHit_Some:
  "closestNote g l = Some c \<Longrightarrow>
   checkNoteHit l g =
     (if \<bar>currentY c - JUDGMENT_LINE_Y\<bar> < PERFECT_THRESHOLD
      then g\<lparr>stats := perfectUpdate (stats g),
             judgmentLabel := Some (''PERFECT!'', ''text-yellow-400''),
             noteList := markHit (noteId c) (noteList g)\<rparr>
      else g\<lparr>stats := goodUpdate (stats g),
             judgmentLabel := Some (''GOOD'', ''text-green-400''),
             noteList := markHit (noteId c) (noteList g)\<rparr>)"
  using closestNote_window [of g l c]
  by (simp add: checkNoteHit_def Let_def inHitWindow_distance)

lemma markHit_distinct:
  "distinct (map noteId ns) \<Longrightarrow> c \<in> set ns \<Longrightarrow>
   markHit (noteId c) ns = map (\<lambda>n. if n = c then n\<lparr>hit := True\<rparr> else n) ns"
  unfolding markHit_def
  by (rule map_cong) (auto simp: distinct_map inj_on_def)

lemma perfectUpdate_iter:
  "combo ((perfectUpdate ^^ k) s) = combo s + k"
  by (induction k) (simp_all add: perfectUpdate_def)

section \<open>Claims about the judgment\<close>

text \<open>
  Claim C1. A key press on a lane in which at least one unresolved note lies within the
  good window of the judgment line resolves exactly one note: a note \<open>c\<close> of the window
  whose distance to the line is minimal among the notes of the window. Every other note
  of the list is left as it was, and every other note of the window is still in the
  window afterwards, so it can still be hit or missed. The notes of a chart have
  pairwise different identifiers (\<open>noteIdRef.current++\<close>), which is the first
  assumption: the update marks by identifier.
\<close>

theorem checkNoteHit_resolves_nearest:
  assumes "distinct (map noteId (noteList g))" and "laneNotes g l \<noteq> []"
  shows "\<exists>c \<in> set (laneNotes g l).
           (\<forall>n \<in> set (laneNotes g l).
              \<bar>currentY c - JUDGMENT_LINE_Y\<bar> \<le> \<bar>currentY n - JUDGMENT_LINE_Y\<bar>) \<and>
           noteList (checkNoteHit l g) =
             map (\<lambda>n. if n = c then n\<lparr>hit := True\<rparr> else n) (noteList g) \<and>
           (\<forall>n \<in> set (laneNotes g l). n \<noteq> c \<longrightarrow> n \<in> set (laneNotes (checkNoteHit l g) l))"
proof -
  from assms(2) obtain c where c: "closestNote g l = Some c"
    by (auto simp: closestNote_None [symmetric])
  have mem: "c \<in> set (laneNotes g l)" by (rule closestNote_mem [OF c])
  then have cin: "c \<in> set (noteList g)" by (simp add: laneNotes_def)
  have upd: "noteList (checkNoteHit l g) =
      map (\<lambda>n. if n = c then n\<lparr>hit := True\<rparr> else n) (noteList g)"
    by (simp add: checkNoteHit_Some [OF c] markHit_distinct [OF assms(1) cin])
  have rest: "n \<in> set (laneNotes (checkNoteHit l g) l)"
    if "n \<in> set (laneNotes g l)" "n \<noteq> c" for n
  proof -
    from that(1) have "n \<in> set (noteList g)" "inHitWindow l n" by (simp_all add: laneNotes_def)
    with that(2) have "n \<in> set (noteList (checkNoteHit l g))" unfolding upd by force
    with \<open>inHitWindow l n\<close> show ?thesis by (simp add: laneNotes_def)
  qed
  from mem closestNote_min [OF c] upd rest show ?thesis by blast
qed

theorem checkNoteHit_resolves_nearest_witness:
  "distinct (map noteId (noteList twoInWindow)) \<and> laneNotes twoInWindow 0 \<noteq> [] \<and>
   noteList (checkNoteHit 0 twoInWindow) =
     [mkNote 0 0 3000 530, (mkNote 1 0 3500 490)\<lparr>hit := True\<rparr>, mkNote 2 1 3500 490]"
  using checkNoteHit_resolves_nearest [of twoInWindow 0]
  by (auto simp: twoInWindow_def playingWith_def initialGame_def mkNote_def laneNotes_def inHitWindow_def thresholds)

text \<open>
  Claim C2. On a classified hit the score grows by the base value, 1000 for PERFECT and
  500 for GOOD, times \<open>max 1 (priorCombo div 10 + 1)\<close>, where \<open>priorCombo\<close> is the combo
  before the hit. After ten PERFECT updates from fresh stats the combo is 10, and the
  eleventh adds \<open>1000 * 2\<close>.
\<close>

theorem checkNoteHit_score_increment:
  "(closestNote g l = Some c \<longrightarrow>
      score (stats (checkNoteHit l g)) =
        score (stats g) +
        (if \<bar>currentY c - JUDGMENT_LINE_Y\<bar> < PERFECT_THRESHOLD then 1000 else 500) *
          max 1 (combo (stats g) div 10 + 1)) \<and>
   combo ((perfectUpdate ^^ 10) initialStats) = 10 \<and>
   score ((perfectUpdate ^^ 11) initialStats) =
     score ((perfectUpdate ^^ 10) initialStats) + 1000 * 2"
proof (intro conjI impI)
  assume "closestNote g l = Some c"
  then show "score (stats (checkNoteHit l g)) =
        score (stats g) +
        (if \<bar>currentY c - JUDGMENT_LINE_Y\<bar> < PERFECT_THRESHOLD then 1000 else 500) *
          max 1 (combo (stats g) div 10 + 1)"
    by (simp add: checkNoteHit_Some perfectUpdate_def goodUpdate_def comboTier_def)
next
  show c10: "combo ((perfectUpdate ^^ 10) initialStats) = 10"
    by (simp add: perfectUpdate_iter initialStats_def)
  have "(perfectUpdate ^^ 11) initialStats = perfectUpdate ((perfectUpdate ^^ 10) initialStats)"
    by (simp add: eval_nat_numeral)
  then show "score ((perfectUpdate ^^ 11) initialStats) =
     score ((perfectUpdate ^^ 10) initialStats) + 1000 * 2"
    using c10 by (simp add: perfectUpdate_def comboTier_def)
qed

theorem checkNoteHit_score_increment_witness:
  "closestNote onLine 0 = Some (mkNote 0 0 3000 500) \<and>
   score (stats (checkNoteHit 0 onLine)) = 1000"
  using checkNoteHit_score_increment [of onLine 0 "mkNote 0 0 3000 500"]
  by (simp add: onLine_def playingWith_def initialGame_def mkNote_def closestNote_def laneNotes_def
      inHitWindow_def initialStats_def thresholds)

text \<open>
  Claim C4. The note \<open>c\<close> that a key press selects is classified by strict comparisons
  of its distance to the judgment line: below \<open>PERFECT_THRESHOLD\<close> it is PERFECT; from
  \<open>PERFECT_THRESHOLD\<close> on (the threshold itself included) it is GOOD, and its distance
  is always below \<open>GOOD_THRESHOLD\<close>. A note \<open>n\<close> at distance exactly \<open>GOOD_THRESHOLD\<close>
  is never the selected one, and if it is unresolved it is still in the list, unchanged,
  after the key press, so the miss sweep can still take it.
\<close>

theorem checkNoteHit_classification:
  "(closestNote g l = Some c \<longrightarrow>
      \<bar>currentY c - JUDGMENT_LINE_Y\<bar> < GOOD_THRESHOLD \<and>
      (\<bar>currentY c - JUDGMENT_LINE_Y\<bar> < PERFECT_THRESHOLD \<longrightarrow>
         judgmentLabel (checkNoteHit l g) = Some (''PERFECT!'', ''text-yellow-400'') \<and>
         perfect (stats (checkNoteHit l g)) = perfect (stats g) + 1 \<and>
         good (stats (checkNoteHit l g)) = good (stats g)) \<and>
      (PERFECT_THRESHOLD \<le> \<bar>currentY c - JUDGMENT_LINE_Y\<bar> \<longrightarrow>
         judgmentLabel (checkNoteHit l g) = Some (''GOOD'', ''text-green-400'') \<and>
         good (stats (checkNoteHit l g)) = good (stats g) + 1 \<and>
         perfect (stats (checkNoteHit l g)) = perfect (stats g))) \<and>
   (\<bar>currentY n - JUDGMENT_LINE_Y\<bar> = GOOD_THRESHOLD \<longrightarrow>
      closestNote g l \<noteq> Some n \<and>
      (n \<in> set (noteList g) \<and> \<not> hit n \<and> distinct (map noteId (noteList g)) \<longrightarrow>
         n \<in> set (noteList (checkNoteHit l g))))"
proof (intro conjI impI)
  assume c: "closestNote g l = Some c"
  from closestNote_window [OF c]
  show "\<bar>currentY c - JUDGMENT_LINE_Y\<bar> < GOOD_THRESHOLD"
    by (simp add: inHitWindow_distance)
  {
    assume "\<bar>currentY c - JUDGMENT_LINE_Y\<bar> < PERFECT_THRESHOLD"
    then show "judgmentLabel (checkNoteHit l g) = Some (''PERFECT!'', ''text-yellow-400'')"
      and "perfect (stats (checkNoteHit l g)) = perfect (stats g) + 1"
      and "good (stats (checkNoteHit l g)) = good (stats g)"
      by (simp_all add: checkNoteHit_Some [OF c] perfectUpdate_def)
  }
  {
    assume "PERFECT_THRESHOLD \<le> \<bar>currentY c - JUDGMENT_LINE_Y\<bar>"
    then show "judgmentLabel (checkNoteHit l g) = Some (''GOOD'', ''text-green-400'')"
      and "good (stats (checkNoteHit l g)) = good (stats g) + 1"
      and "perfect (stats (checkNoteHit l g)) = perfect (stats g)"
      by (simp_all add: checkNoteHit_Some [OF c] goodUpdate_def)
  }
next
  assume d: "\<bar>currentY n - JUDGMENT_LINE_Y\<bar> = GOOD_THRESHOLD"
  then have nw: "\<not> inHitWindow l n" by (simp add: inHitWindow_distance)
  then show "closestNote g l \<noteq> Some n" using closestNote_window by blast
  assume a: "n \<in> set (noteList g) \<and> \<not> hit n \<and> distinct (map noteId (noteList g))"
  show "n \<in> set (noteList (checkNoteHit l g))"
  proof (cases "closestNote g l")
    case None
    with a show ?thesis by (simp add: checkNoteHit_def)
  next
    case (Some c)
    have cin: "c \<in> set (noteList g)"
      using closestNote_mem [OF Some] by (simp add: laneNotes_def)
    have "n \<noteq> c" using closestNote_window [OF Some] nw by auto
    with a have "n \<in> set (map (\<lambda>n. if n = c then n\<lparr>hit := True\<rparr> else n) (noteList g))"
      by force
    with a cin show ?thesis
      by (simp add: checkNoteHit_Some [OF Some] markHit_distinct)
  qed
qed

theorem checkNoteHit_classification_witness:
  "closestNote boundaryNotes 0 = Some (mkNote 0 0 3000 540) \<and>
   judgmentLabel (checkNoteHit 0 boundaryNotes) = Some (''GOOD'', ''text-green-400'') \<and>
   closestNote boundaryNotes 2 = Some (mkNote 2 2 3000 539) \<and>
   judgmentLabel (checkNoteHit 2 boundaryNotes) = Some (''PERFECT!'', ''text-yellow-400'') \<and>
   \<bar>currentY (mkNote 1 1 3000 580) - JUDGMENT_LINE_Y\<bar> = GOOD_THRESHOLD \<and>
   closestNote boundaryNotes 1 = None \<and>
   mkNote 1 1 3000 580 \<in> set (noteList (checkNoteHit 1 boundaryNotes))"
  using checkNoteHit_classification [of boundaryNotes 0 "mkNote 0 0 3000 540" "mkNote 1 1 3000 580"]
    checkNoteHit_classification [of boundaryNotes 2 "mkNote 2 2 3000 539" "mkNote 1 1 3000 580"]
    checkNoteHit_classification [of boundaryNotes 1 "mkNote 0 0 3000 540" "mkNote 1 1 3000 580"]
  by (simp add: boundaryNotes_def playingWith_def initialGame_def mkNote_def closestNote_def laneNotes_def
      inHitWindow_def thresholds)

text \<open>
  Claim C9. When no unresolved note of the lane lies within the good window, the
  judgment changes nothing at all (\<open>checkNoteHit\<close> returns the state it was given, no
  label is emitted), and the key press that leads to it leaves the notes, the stats,
  the judgment label, the clock and the session state as they were.
\<close>

theorem checkNoteHit_no_candidate:
  assumes "laneNotes g l = []"
  shows "checkNoteHit l g = g \<and>
         (keyMap (keyMode g) code = Some l \<longrightarrow>
            noteList (handleKeyDown code g) = noteList g \<and>
            stats (handleKeyDown code g) = stats g \<and>
            judgmentLabel (handleKeyDown code g) = judgmentLabel g \<and>
            startTimeRef (handleKeyDown code g) = startTimeRef g \<and>
            pauseTimeRef (handleKeyDown code g) = pauseTimeRef g \<and>
            gameState (handleKeyDown code g) = gameState g)"
proof -
  have none: "closestNote g' l = None" if "noteList g' = noteList g" for g'
    using assms that by (simp add: closestNote_None laneNotes_def)
  then have "checkNoteHit l g' = g'" if "noteList g' = noteList g" for g'
    using that by (simp add: checkNoteHit_def)
  then show ?thesis by (simp add: handleKeyDown_def)
qed

theorem checkNoteHit_no_candidate_witness:
  "laneNotes boundaryNotes 1 = [] \<and> keyMap (keyMode boundaryNotes) ''KeyS'' = Some 1 \<and>
   checkNoteHit 1 boundaryNotes = boundaryNotes \<and>
   stats (handleKeyDown ''KeyS'' boundaryNotes) = initialStats"
  using checkNoteHit_no_candidate [of boundaryNotes 1 "''KeyS''"]
  by (simp add: boundaryNotes_def playingWith_def initialGame_def mkNote_def laneNotes_def inHitWindow_def
      keyMap_def thresholds)

section \<open>Further facts about \<open>checkNoteHit\<close>\<close>

lemma mark_hit_id: "hit n \<Longrightarrow> n\<lparr>hit := True\<rparr> = n"
  by (cases n) simp

lemma markHit_resolved:
  "i < length ns \<Longrightarrow> hit (ns ! i) \<Longrightarrow> markHit k ns ! i = ns ! i"
  by (simp add: markHit_def mark_hit_id)

lemma length_markHit [simp]: "length (markHit k ns) = length ns"
  by (simp add: markHit_def)

lemma checkNoteHit_noteList:
  "noteList (checkNoteHit l g) =
     (case closestNote g l of None \<Rightarrow> noteList g | Some c \<Rightarrow> markHit (noteId c) (noteList g))"
proof (cases "closestNote g l")
  case None
  then show ?thesis by (simp add: checkNoteHit_def)
next
  case (Some c)
  then show ?thesis by (simp add: checkNoteHit_Some)
qed

lemma checkNoteHit_resolved:
  "i < length (noteList g) \<Longrightarrow> hit (noteList g ! i) \<Longrightarrow>
   length (noteList (checkNoteHit l g)) = length (noteList g) \<and>
   noteList (checkNoteHit l g) ! i = noteList g ! i"
  by (simp add: checkNoteHit_noteList markHit_resolved split: option.split)

lemma markHit_count:
  "distinct (map noteId ns) \<Longrightarrow> c \<in> set ns \<Longrightarrow> \<not> hit c \<Longrightarrow>
   length (filter hit (markHit (noteId c) ns)) = Suc (length (filter hit ns))"
proof (induction ns)
  case Nil
  then show ?case by simp
next
  case (Cons n ns)
  show ?case
  proof (cases "n = c")
    case True
    with Cons.prems have "noteId c \<notin> noteId ` set ns" by simp
    then have "\<forall>m \<in> set ns. noteId m \<noteq> noteId c" by (metis imageI)
    then have "markHit (noteId c) ns = ns"
      by (simp add: markHit_def map_idI)
    with True Cons.prems show ?thesis by (simp add: markHit_def)
  next
    case False
    with Cons.prems have "c \<in> set ns" "noteId n \<noteq> noteId c" by auto
    with Cons show ?thesis by (simp add: markHit_def)
  qed
qed

lemma markHit_ids [simp]: "map noteId (markHit k ns) = map noteId ns"
  by (simp add: markHit_def)

lemma checkNoteHit_counts:
  assumes "distinct (map noteId (noteList g))"
  shows "distinct (map noteId (noteList (checkNoteHit l g))) \<and>
         counted (stats (checkNoteHit l g)) + resolvedCount g =
           counted (stats g) + resolvedCount (checkNoteHit l g)"
proof (cases "closestNote g l")
  case None
  with assms show ?thesis by (simp add: checkNoteHit_def)
next
  case (Some c)
  from closestNote_mem [OF Some] have "c \<in> set (noteList g)" "\<not> hit c"
    by (simp_all add: laneNotes_def inHitWindow_def)
  from markHit_count [OF assms this] assms show ?thesis
    by (simp add: checkNoteHit_Some [OF Some] counted_def resolvedCount_def
        perfectUpdate_def goodUpdate_def)
qed

lemma checkNoteHit_frame [simp]:
  "pressedKeys (checkNoteHit l g) = pressedKeys g"
  "keyMode (checkNoteHit l g) = keyMode g"
  "gameState (checkNoteHit l g) = gameState g"
proof -
  show "pressedKeys (checkNoteHit l g) = pressedKeys g"
    by (cases "closestNote g l") (simp_all add: checkNoteHit_def Let_def)
  show "keyMode (checkNoteHit l g) = keyMode g"
    by (cases "closestNote g l") (simp_all add: checkNoteHit_def Let_def)
  show "gameState (checkNoteHit l g) = gameState g"
    by (cases "closestNote g l") (simp_all add: checkNoteHit_def Let_def)
qed

lemma checkNoteHit_maxCombo: "maxCombo (stats (checkNoteHit l g)) = maxCombo (stats g)"
  by (cases "closestNote g l")
    (simp_all add: checkNoteHit_def Let_def perfectUpdate_def goodUpdate_def)

section \<open>The clock\<close>








section \<open>The frame: motion and miss sweep\<close>

lemma missCheck_cases:
  "missCheck n acc = (if isMissed n then (missUpdate (fst acc), markHit (noteId n) (snd acc)) else acc)"
  by (simp add: missCheck_def isMissed_def)

lemma markHit_markAll: "markHit i (markAll M ns) = markAll (insert i M) ns"
  by (simp add: markHit_def markAll_def)

lemma fold_missCheck:
  "fold missCheck xs (st, markAll M ns) =
     ((missUpdate ^^ length (filter isMissed xs)) st,
      markAll (M \<union> noteId ` {n \<in> set xs. isMissed n}) ns)"
proof (induction xs arbitrary: st M)
  case Nil
  show ?case by simp
next
  case (Cons x xs)
  show ?case
  proof (cases "isMissed x")
    case True
    have "insert (noteId x) M \<union> noteId ` {n \<in> set xs. isMissed n}
          = M \<union> noteId ` {n \<in> set (x # xs). isMissed n}"
      using True by auto
    with True Cons.IH [of "missUpdate st" "insert (noteId x) M"] show ?thesis
      by (simp add: missCheck_cases markHit_markAll funpow_swap1)
  next
    case False
    have "{n \<in> set (x # xs). isMissed n} = {n \<in> set xs. isMissed n}"
      using False by auto
    with False Cons.IH [of st M] show ?thesis
      by (simp add: missCheck_cases)
  qed
qed

lemma markAll_empty: "markAll {} ns = ns"
  by (simp add: markAll_def)

lemma missUpdate_iter:
  "miss ((missUpdate ^^ k) s) = miss s + k"
  "score ((missUpdate ^^ k) s) = score s"
  "perfect ((missUpdate ^^ k) s) = perfect s"
  "good ((missUpdate ^^ k) s) = good s"
  "combo ((missUpdate ^^ k) s) = (if k = 0 then combo s else 0)"
  "maxCombo ((missUpdate ^^ k) s) = (if k = 0 then maxCombo s else max (maxCombo s) (combo s))"
  by (induction k) (simp_all add: missUpdate_def)

lemma gameLoop_noteList:
  "noteList (gameLoop t g) =
     markAll (noteId ` {n \<in> set (noteList g). isMissed n})
       (map (moveNote (elapsed t g) (speedMultiplier g)
              (difficultySpeed (DIFFICULTY_SETTINGS (difficulty g)))) (noteList g))"
  using fold_missCheck [of "noteList g" "stats g" "{}"]
  by (simp add: gameLoop_def Let_def markAll_empty elapsed_def)

lemma gameLoop_stats:
  "stats (gameLoop t g) = (missUpdate ^^ length (filter isMissed (noteList g))) (stats g)"
  using fold_missCheck [of "noteList g" "stats g" "{}"]
  by (simp add: gameLoop_def Let_def markAll_empty)

lemma noteId_moveNote [simp]: "noteId (moveNote e s d n) = noteId n"
  by (simp add: moveNote_def Let_def)

lemma hit_moveNote [simp]: "hit (moveNote e s d n) = hit n"
  by (simp add: moveNote_def Let_def)

lemma moveNote_hit: "hit n \<Longrightarrow> moveNote e s d n = n"
  by (simp add: moveNote_def)

text \<open>What the sweep of a frame does, in terms of the positions stored in the state the
  frame starts from (the array \<open>notes\<close> of the closure): every unresolved note stored
  beyond \<open>JUDGMENT_LINE_Y + GOOD_THRESHOLD\<close> is marked, the miss counter grows by one for
  each, and on any miss the combo becomes 0 and \<open>maxCombo\<close> the maximum of its previous
  value and of the combo before the reset.\<close>

lemma gameLoop_sweep_stored:
  "length (noteList (gameLoop t g)) = length (noteList g) \<and>
   (\<forall>i < length (noteList g).
      \<not> hit (noteList g ! i) \<and> currentY (noteList g ! i) > JUDGMENT_LINE_Y + GOOD_THRESHOLD \<longrightarrow>
      hit (noteList (gameLoop t g) ! i) \<and>
      noteId (noteList (gameLoop t g) ! i) = noteId (noteList g ! i)) \<and>
   miss (stats (gameLoop t g)) =
     miss (stats g) +
     length (filter (\<lambda>n. \<not> hit n \<and> currentY n > JUDGMENT_LINE_Y + GOOD_THRESHOLD) (noteList g)) \<and>
   ((\<exists>n \<in> set (noteList g). \<not> hit n \<and> currentY n > JUDGMENT_LINE_Y + GOOD_THRESHOLD) \<longrightarrow>
      combo (stats (gameLoop t g)) = 0 \<and>
      maxCombo (stats (gameLoop t g)) = max (maxCombo (stats g)) (combo (stats g)))"
proof (intro conjI allI impI)
  show len: "length (noteList (gameLoop t g)) = length (noteList g)"
    by (simp add: gameLoop_noteList markAll_def)
  have flt: "filter (\<lambda>n. \<not> hit n \<and> currentY n > JUDGMENT_LINE_Y + GOOD_THRESHOLD) (noteList g)
      = filter isMissed (noteList g)"
    by (simp add: isMissed_def [abs_def])
  show "miss (stats (gameLoop t g)) =
     miss (stats g) +
     length (filter (\<lambda>n. \<not> hit n \<and> currentY n > JUDGMENT_LINE_Y + GOOD_THRESHOLD) (noteList g))"
    by (simp add: flt gameLoop_stats missUpdate_iter)
  {
    fix i
    assume i: "i < length (noteList g)"
      and m: "\<not> hit (noteList g ! i) \<and> currentY (noteList g ! i) > JUDGMENT_LINE_Y + GOOD_THRESHOLD"
    from i m have "noteId (noteList g ! i) \<in> noteId ` {n \<in> set (noteList g). isMissed n}"
      by (auto simp: isMissed_def)
    with i show "hit (noteList (gameLoop t g) ! i)"
      and "noteId (noteList (gameLoop t g) ! i) = noteId (noteList g ! i)"
      by (simp_all add: gameLoop_noteList markAll_def)
  }
  {
    assume "\<exists>n \<in> set (noteList g). \<not> hit n \<and> currentY n > JUDGMENT_LINE_Y + GOOD_THRESHOLD"
    then have "filter isMissed (noteList g) \<noteq> []"
      by (auto simp: filter_empty_conv isMissed_def)
    then show "combo (stats (gameLoop t g)) = 0"
      and "maxCombo (stats (gameLoop t g)) = max (maxCombo (stats g)) (combo (stats g))"
      by (simp_all add: gameLoop_stats missUpdate_iter)
  }
qed

lemma gameLoop_sweep_stored_example:
  "hit (noteList (gameLoop 5700 lateNotes) ! 0) \<and>
   hit (noteList (gameLoop 5700 lateNotes) ! 2) \<and>
   miss (stats (gameLoop 5700 lateNotes)) = 2 \<and>
   combo (stats (gameLoop 5700 lateNotes)) = 0 \<and>
   maxCombo (stats (gameLoop 5700 lateNotes)) = 3"
proof -
  note sweep = gameLoop_sweep_stored [of 5700 lateNotes]
  have nl: "noteList lateNotes = [mkNote 0 0 3000 590, mkNote 1 1 3200 570, mkNote 2 2 3000 600]"
    and st: "stats lateNotes = \<lparr>score = 3000, combo = 3, maxCombo = 1, perfect = 3, good = 0, miss = 0\<rparr>"
    by (simp_all add: lateNotes_def playingWith_def)
  from sweep have "hit (noteList (gameLoop 5700 lateNotes) ! 0)"
    and "hit (noteList (gameLoop 5700 lateNotes) ! 2)"
    unfolding nl by (simp_all add: mkNote_def thresholds)
  moreover from sweep have "miss (stats (gameLoop 5700 lateNotes)) = 2"
    unfolding nl st by (simp add: mkNote_def thresholds)
  moreover from sweep have "combo (stats (gameLoop 5700 lateNotes)) = 0"
    and "maxCombo (stats (gameLoop 5700 lateNotes)) = 3"
    unfolding nl st by (simp_all add: mkNote_def thresholds)
  ultimately show ?thesis by simp
qed

text \<open>
  Claim C5 says that in every frame each unresolved note whose derived position exceeds
  \<open>JUDGMENT_LINE_Y + GOOD_THRESHOLD\<close> is resolved by the miss sweep and counted as a
  miss. In this version the sweep does not see the positions that the frame has just
  derived. In \<open>crossingNote\<close> the note is stored at 577.5; the frame at 5666 ms derives
  the position 583.1, beyond the bound 580, and leaves the note unresolved with no miss
  counted. The frame after it, at 5682 ms, resolves the note and counts the miss.
\<close>

theorem gameLoop_sweep_lags_motion:
  "noteList (gameLoop 5666 crossingNote) = [mkNote 0 0 3000 (5831 / 10)] \<and>
   JUDGMENT_LINE_Y + GOOD_THRESHOLD < currentY (noteList (gameLoop 5666 crossingNote) ! 0) \<and>
   \<not> hit (noteList (gameLoop 5666 crossingNote) ! 0) \<and>
   miss (stats (gameLoop 5666 crossingNote)) = 0 \<and>
   hit (noteList (gameLoop 5682 (gameLoop 5666 crossingNote)) ! 0) \<and>
   miss (stats (gameLoop 5682 (gameLoop 5666 crossingNote))) = 1"
  by (simp add: crossingNote_def model_defs)

section \<open>Resolved notes\<close>

lemma gameLoop_resolved:
  "i < length (noteList g) \<Longrightarrow> hit (noteList g ! i) \<Longrightarrow>
   length (noteList (gameLoop t g)) = length (noteList g) \<and>
   noteList (gameLoop t g) ! i = noteList g ! i"
  by (simp add: gameLoop_noteList markAll_def moveNote_hit mark_hit_id)

lemma step_resolved:
  "i < length (noteList g) \<Longrightarrow> hit (noteList g ! i) \<Longrightarrow>
   length (noteList (step e g)) = length (noteList g) \<and>
   noteList (step e g) ! i = noteList g ! i"
proof (cases e)
  case (Frame t)
  assume "i < length (noteList g)" "hit (noteList g ! i)"
  with Frame show ?thesis using gameLoop_resolved [of i g t] by simp
next
  case (KeyDown c)
  assume a: "i < length (noteList g)" "hit (noteList g ! i)"
  have "length (noteList (checkNoteHit l (g\<lparr>pressedKeys := P\<rparr>))) = length (noteList g) \<and>
        noteList (checkNoteHit l (g\<lparr>pressedKeys := P\<rparr>)) ! i = noteList g ! i" for l P
    using a checkNoteHit_resolved [of i "g\<lparr>pressedKeys := P\<rparr>" l] by simp
  with KeyDown show ?thesis
    by (simp add: handleKeyDown_def split: option.split)
next
  case (KeyUp c)
  then show ?thesis by (simp add: handleKeyUp_def split: option.split)
next
  case (TogglePause now)
  then show ?thesis by (simp add: togglePause_def)
qed

lemma run_resolved:
  "i < length (noteList g) \<Longrightarrow> hit (noteList g ! i) \<Longrightarrow>
   length (noteList (run es g)) = length (noteList g) \<and>
   noteList (run es g) ! i = noteList g ! i"
proof (induction es arbitrary: g)
  case Nil
  show ?case by (simp add: run_def)
next
  case (Cons e es)
  from step_resolved [OF Cons.prems]
  have s: "length (noteList (step e g)) = length (noteList g)"
    "noteList (step e g) ! i = noteList g ! i" by simp_all
  with Cons.prems have "i < length (noteList (step e g))" "hit (noteList (step e g) ! i)"
    by simp_all
  from Cons.IH [OF this] s show ?case by (simp add: run_def)
qed

lemma filter_disj_count:
  "(\<And>x. x \<in> set xs \<Longrightarrow> Q x \<Longrightarrow> \<not> P x) \<Longrightarrow>
   length (filter (\<lambda>x. P x \<or> Q x) xs) = length (filter P xs) + length (filter Q xs)"
  by (induction xs) auto

lemma markAll_ids [simp]: "map noteId (markAll M ns) = map noteId ns"
  by (simp add: markAll_def comp_def if_distrib [of noteId])

lemma moveNote_ids [simp]: "noteId \<circ> moveNote e s d = noteId"
  by (simp add: fun_eq_iff)

lemma gameLoop_counts:
  assumes "distinct (map noteId (noteList g))"
  shows "distinct (map noteId (noteList (gameLoop t g))) \<and>
         counted (stats (gameLoop t g)) + resolvedCount g =
           counted (stats g) + resolvedCount (gameLoop t g)"
proof
  show "distinct (map noteId (noteList (gameLoop t g)))"
    using assms by (simp add: gameLoop_noteList)
  have inj: "noteId n \<in> noteId ` {m \<in> set (noteList g). isMissed m} \<longleftrightarrow> isMissed n"
    if "n \<in> set (noteList g)" for n
    using assms that by (auto simp: distinct_map inj_on_def)
  have "filter hit (noteList (gameLoop t g)) =
        filter hit (map (\<lambda>n. if isMissed n then (moveNote (elapsed t g) (speedMultiplier g)
              (difficultySpeed (DIFFICULTY_SETTINGS (difficulty g))) n)\<lparr>hit := True\<rparr>
            else moveNote (elapsed t g) (speedMultiplier g)
              (difficultySpeed (DIFFICULTY_SETTINGS (difficulty g))) n) (noteList g))"
    unfolding gameLoop_noteList markAll_def map_map comp_def
    by (rule arg_cong [where f = "filter hit"], rule map_cong) (simp_all add: inj)
  then have "resolvedCount (gameLoop t g) =
        length (filter (\<lambda>n. hit n \<or> isMissed n) (noteList g))"
    unfolding resolvedCount_def
    by (simp add: filter_map comp_def if_distrib [of hit] cong: if_cong)
      (metis (mono_tags, lifting) filter_cong)
  also have "\<dots> = resolvedCount g + length (filter isMissed (noteList g))"
    unfolding resolvedCount_def by (rule filter_disj_count) (simp add: isMissed_def)
  finally show "counted (stats (gameLoop t g)) + resolvedCount g =
           counted (stats g) + resolvedCount (gameLoop t g)"
    by (simp add: counted_def gameLoop_stats missUpdate_iter)
qed

lemma gameLoop_resolves_exactly:
  assumes "distinct (map noteId (noteList g))" and "i < length (noteList g)"
  shows "hit (noteList (gameLoop t g) ! i) \<longleftrightarrow>
           hit (noteList g ! i) \<or> isMissed (noteList g ! i)"
proof -
  have "noteId (noteList g ! i) \<in> noteId ` {m \<in> set (noteList g). isMissed m}
          \<longleftrightarrow> isMissed (noteList g ! i)"
    using assms by (auto simp: distinct_map inj_on_def)
  with assms(2) show ?thesis
    by (simp add: gameLoop_noteList markAll_def)
qed

lemma step_counts:
  assumes "distinct (map noteId (noteList g))"
  shows "distinct (map noteId (noteList (step e g))) \<and>
         counted (stats (step e g)) + resolvedCount g =
           counted (stats g) + resolvedCount (step e g)"
proof (cases e)
  case (Frame t)
  with assms gameLoop_counts [OF assms, of t] show ?thesis by simp
next
  case (KeyDown c)
  have "distinct (map noteId (noteList (checkNoteHit l (g\<lparr>pressedKeys := P\<rparr>)))) \<and>
        counted (stats (checkNoteHit l (g\<lparr>pressedKeys := P\<rparr>))) + resolvedCount g =
          counted (stats g) + resolvedCount (checkNoteHit l (g\<lparr>pressedKeys := P\<rparr>))" for l P
    using assms checkNoteHit_counts [of "g\<lparr>pressedKeys := P\<rparr>" l]
    by (simp add: resolvedCount_def)
  with KeyDown assms show ?thesis
    by (simp add: handleKeyDown_def split: option.split)
next
  case (KeyUp c)
  with assms show ?thesis
    by (simp add: handleKeyUp_def resolvedCount_def split: option.split)
next
  case (TogglePause now)
  with assms show ?thesis by (simp add: togglePause_def resolvedCount_def)
qed

lemma run_counts:
  "distinct (map noteId (noteList g)) \<Longrightarrow>
   distinct (map noteId (noteList (run es g))) \<and>
   counted (stats (run es g)) + resolvedCount g = counted (stats g) + resolvedCount (run es g)"
proof (induction es arbitrary: g)
  case Nil
  then show ?case by (simp add: run_def)
next
  case (Cons e es)
  from step_counts [OF Cons.prems, of e]
  have d: "distinct (map noteId (noteList (step e g)))"
    and c: "counted (stats (step e g)) + resolvedCount g =
            counted (stats g) + resolvedCount (step e g)" by simp_all
  from Cons.IH [OF d] c show ?case by (simp add: run_def)
qed

text \<open>
  Claim C7. Over any sequence of frames, key events and pause toggles, a note that is
  resolved stays in its place in the list exactly as it is: it is not repositioned, not
  judged again and not set back to unresolved. When the identifiers are pairwise
  different, the counters \<open>perfect\<close>, \<open>good\<close> and \<open>miss\<close> together grow by exactly the
  number of notes that became resolved, so that no note is counted twice: a note
  resolved by a hit is not counted by the miss sweep as well.
\<close>

theorem resolved_note_is_final:
  "(i < length (noteList g) \<and> hit (noteList g ! i) \<longrightarrow>
      length (noteList (run es g)) = length (noteList g) \<and>
      noteList (run es g) ! i = noteList g ! i) \<and>
   (distinct (map noteId (noteList g)) \<longrightarrow>
      perfect (stats (run es g)) + good (stats (run es g)) + miss (stats (run es g))
        + length (filter hit (noteList g))
      = perfect (stats g) + good (stats g) + miss (stats g)
        + length (filter hit (noteList (run es g))))"
  using run_resolved [of i g es] run_counts [of g es]
  by (simp add: counted_def resolvedCount_def)

theorem resolved_note_is_final_witness:
  "noteList (run [KeyDown ''KeyA''] hitThenLate) ! 0 = (mkNote 0 0 3000 500)\<lparr>hit := True\<rparr> \<and>
   noteList (run [Frame 1000, Frame 6000, KeyUp ''KeyA'', KeyDown ''KeyA'', Frame 6016]
               (run [KeyDown ''KeyA''] hitThenLate)) ! 0
     = (mkNote 0 0 3000 500)\<lparr>hit := True\<rparr> \<and>
   distinct (map noteId (noteList hitThenLate)) \<and>
   perfect (stats (run [KeyDown ''KeyA'', Frame 1000, Frame 6000, Frame 6016] hitThenLate)) = 1 \<and>
   good (stats (run [KeyDown ''KeyA'', Frame 1000, Frame 6000, Frame 6016] hitThenLate)) = 0 \<and>
   miss (stats (run [KeyDown ''KeyA'', Frame 1000, Frame 6000, Frame 6016] hitThenLate)) = 1 \<and>
   length (filter hit (noteList
     (run [KeyDown ''KeyA'', Frame 1000, Frame 6000, Frame 6016] hitThenLate))) = 2"
proof -
  let ?g1 = "run [KeyDown ''KeyA''] hitThenLate"
  let ?es = "[Frame 1000, Frame 6000, KeyUp ''KeyA'', KeyDown ''KeyA'', Frame 6016]"
  let ?all = "[KeyDown ''KeyA'', Frame 1000, Frame 6000, Frame 6016]"
  have g1: "noteList ?g1 = [(mkNote 0 0 3000 500)\<lparr>hit := True\<rparr>, mkNote 1 1 3000 500]"
    by (simp add: hitThenLate_def model_defs)
  have st: "stats (run ?all hitThenLate)
      = \<lparr>score = 1000, combo = 0, maxCombo = 1, perfect = 1, good = 0, miss = 1\<rparr>"
    by (simp add: hitThenLate_def model_defs)
  have d: "distinct (map noteId (noteList hitThenLate))"
    and h0: "filter hit (noteList hitThenLate) = []"
    by (simp_all add: hitThenLate_def playingWith_def mkNote_def)
  have pre: "0 < length (noteList ?g1) \<and> hit (noteList ?g1 ! 0)"
    unfolding g1 by simp
  from resolved_note_is_final [of 0 ?g1 ?es] pre
  have "noteList (run ?es ?g1) ! 0 = noteList ?g1 ! 0" by blast
  then have fin: "noteList (run ?es ?g1) ! 0 = (mkNote 0 0 3000 500)\<lparr>hit := True\<rparr>"
    unfolding g1 by simp
  from resolved_note_is_final [of 0 hitThenLate ?all] d
  have "perfect (stats (run ?all hitThenLate)) + good (stats (run ?all hitThenLate))
          + miss (stats (run ?all hitThenLate)) + length (filter hit (noteList hitThenLate))
        = perfect (stats hitThenLate) + good (stats hitThenLate) + miss (stats hitThenLate)
          + length (filter hit (noteList (run ?all hitThenLate)))"
    by blast
  then have cnt: "length (filter hit (noteList (run ?all hitThenLate))) = 2"
    unfolding st h0 by (simp add: hitThenLate_def playingWith_def initialGame_def initialStats_def)
  from g1 fin d st cnt show ?thesis by simp
qed

section \<open>Held keys\<close>

lemma gameLoop_frame [simp]:
  "pressedKeys (gameLoop t g) = pressedKeys g"
  "keyMode (gameLoop t g) = keyMode g"
  by (simp_all add: gameLoop_def Let_def)

lemma step_keyMode [simp]: "keyMode (step e g) = keyMode g"
  by (cases e) (simp_all add: handleKeyDown_def handleKeyUp_def togglePause_def split: option.split)

lemma run_keyMode [simp]: "keyMode (run es g) = keyMode g"
  by (induction es arbitrary: g) (simp_all add: run_def)
lemma step_held:
  "l \<in> pressedKeys g \<Longrightarrow> \<not> releases (keyMode g) l e \<Longrightarrow> l \<in> pressedKeys (step e g)"
  by (cases e)
    (auto simp: releases_def handleKeyDown_def handleKeyUp_def togglePause_def split: option.split)

lemma run_held:
  "l \<in> pressedKeys g \<Longrightarrow> list_all (\<lambda>e. \<not> releases (keyMode g) l e) es \<Longrightarrow>
   l \<in> pressedKeys (run es g)"
proof (induction es arbitrary: g)
  case Nil
  then show ?case by (simp add: run_def)
next
  case (Cons e es)
  from Cons.prems have "l \<in> pressedKeys (step e g)" by (simp add: step_held)
  moreover from Cons.prems have "list_all (\<lambda>e. \<not> releases (keyMode (step e g)) l e) es"
    by simp
  ultimately have "l \<in> pressedKeys (run es (step e g))"
    using Cons.IH [of "step e g"] by simp
  then show ?case by (simp add: run_def)
qed

text \<open>
  Claim C10. A key-down changes the state, and so reaches \<open>checkNoteHit\<close>, only when the
  session is playing and the code maps to a lane that is not in the pressed-key set; in
  that case it is the judgment on that lane, with the lane recorded as pressed. While a
  lane is in the pressed-key set, over any sequence of events with no key-up for that
  lane, the lane stays pressed and a key-down for it changes nothing. A key-up for the
  lane removes it from the set.
\<close>

theorem keydown_gated_by_state_and_held_key:
  "(handleKeyDown code g \<noteq> g \<longrightarrow>
      gameState g = Playing \<and> (\<exists>l. keyMap (keyMode g) code = Some l \<and> l \<notin> pressedKeys g)) \<and>
   (gameState g = Playing \<and> keyMap (keyMode g) code = Some l \<and> l \<notin> pressedKeys g \<longrightarrow>
      handleKeyDown code g = checkNoteHit l (g\<lparr>pressedKeys := insert l (pressedKeys g)\<rparr>) \<and>
      l \<in> pressedKeys (handleKeyDown code g)) \<and>
   (l \<in> pressedKeys g \<and> list_all (\<lambda>e. \<not> releases (keyMode g) l e) es \<and>
    keyMap (keyMode g) code' = Some l \<longrightarrow>
      l \<in> pressedKeys (run es g) \<and> handleKeyDown code' (run es g) = run es g) \<and>
   (keyMap (keyMode g) code = Some l \<longrightarrow> l \<notin> pressedKeys (handleKeyUp code g))"
proof (intro conjI impI)
  assume "handleKeyDown code g \<noteq> g"
  then show "gameState g = Playing"
    and "\<exists>l. keyMap (keyMode g) code = Some l \<and> l \<notin> pressedKeys g"
    by (auto simp: handleKeyDown_def split: if_splits option.splits)
next
  assume a: "gameState g = Playing \<and> keyMap (keyMode g) code = Some l \<and> l \<notin> pressedKeys g"
  then show "handleKeyDown code g = checkNoteHit l (g\<lparr>pressedKeys := insert l (pressedKeys g)\<rparr>)"
    by (simp add: handleKeyDown_def)
  then show "l \<in> pressedKeys (handleKeyDown code g)" by simp
next
  assume a: "l \<in> pressedKeys g \<and> list_all (\<lambda>e. \<not> releases (keyMode g) l e) es \<and>
    keyMap (keyMode g) code' = Some l"
  then show held: "l \<in> pressedKeys (run es g)" by (simp add: run_held)
  with a show "handleKeyDown code' (run es g) = run es g"
    by (simp add: handleKeyDown_def)
next
  assume "keyMap (keyMode g) code = Some l"
  then show "l \<notin> pressedKeys (handleKeyUp code g)" by (simp add: handleKeyUp_def)
qed

theorem keydown_gated_by_state_and_held_key_witness:
  "handleKeyDown ''KeyA'' onLine \<noteq> onLine \<and>
   gameState onLine = Playing \<and> keyMap (keyMode onLine) ''KeyA'' = Some 0 \<and>
   0 \<notin> pressedKeys onLine \<and>
   0 \<in> pressedKeys (handleKeyDown ''KeyA'' onLine) \<and>
   list_all (\<lambda>e. \<not> releases (keyMode (handleKeyDown ''KeyA'' onLine)) 0 e)
     [Frame 1000, KeyDown ''KeyA'', KeyUp ''KeyS'', KeyDown ''ArrowLeft''] \<and>
   handleKeyDown ''ArrowLeft''
     (run [Frame 1000, KeyDown ''KeyA'', KeyUp ''KeyS'', KeyDown ''ArrowLeft'']
        (handleKeyDown ''KeyA'' onLine))
     = run [Frame 1000, KeyDown ''KeyA'', KeyUp ''KeyS'', KeyDown ''ArrowLeft'']
        (handleKeyDown ''KeyA'' onLine) \<and>
   0 \<notin> pressedKeys (handleKeyUp ''KeyA'' (handleKeyDown ''KeyA'' onLine))"
proof -
  let ?g = "handleKeyDown ''KeyA'' onLine"
  let ?es = "[Frame 1000, KeyDown ''KeyA'', KeyUp ''KeyS'', KeyDown ''ArrowLeft'']"
  have pre: "gameState onLine = Playing" "keyMap (keyMode onLine) ''KeyA'' = Some 0"
    "0 \<notin> pressedKeys onLine"
    by (simp_all add: onLine_def playingWith_def initialGame_def keyMap_def)
  have km: "keyMode ?g = Keys4"
    by (simp add: handleKeyDown_def onLine_def playingWith_def initialGame_def split: option.split)
  have rel: "list_all (\<lambda>e. \<not> releases (keyMode ?g) 0 e) ?es"
    unfolding km by (simp add: releases_def keyMap_def)
  have ne: "handleKeyDown ''KeyA'' onLine \<noteq> onLine"
  proof
    assume "handleKeyDown ''KeyA'' onLine = onLine"
    then have "pressedKeys (handleKeyDown ''KeyA'' onLine) = pressedKeys onLine" by simp
    with pre show False by (auto simp: handleKeyDown_def)
  qed
  from keydown_gated_by_state_and_held_key [of "''KeyA''" onLine 0 "[]" "''KeyA''"] pre
  have held: "0 \<in> pressedKeys ?g" by blast
  have "keyMap (keyMode ?g) ''ArrowLeft'' = Some 0" unfolding km by (simp add: keyMap_def)
  with keydown_gated_by_state_and_held_key [of "''KeyA''" ?g 0 ?es "''ArrowLeft''"] held rel
  have noop: "handleKeyDown ''ArrowLeft'' (run ?es ?g) = run ?es ?g" by blast
  have "keyMap (keyMode ?g) ''KeyA'' = Some 0" unfolding km by (simp add: keyMap_def)
  with keydown_gated_by_state_and_held_key [of "''KeyA''" ?g 0 ?es "''ArrowLeft''"]
  have up: "0 \<notin> pressedKeys (handleKeyUp ''KeyA'' ?g)" by blast
  from ne pre held rel noop up show ?thesis by simp
qed

section \<open>The running maximum of the combo\<close>

text \<open>No judgment writes \<open>maxCombo\<close> (\<open>checkNoteHit_maxCombo\<close>), and no other handler but the
  miss sweep of \<open>gameLoop\<close> does. The first version of the component (source lines 284 to
  289) had an effect on \<open>[stats.combo]\<close> that raised \<open>maxCombo\<close> to the combo after every
  change of the combo; this version has none.\<close>

text \<open>
  Claim C6 says that \<open>maxCombo\<close> is at every point the largest value the combo has held.
  In this version \<open>maxCombo\<close> is written by the miss sweep only: in a fresh session with
  one note on the judgment line, the key press makes the combo 1 and leaves \<open>maxCombo\<close>
  at 0.
\<close>

theorem maxCombo_stale_after_hit:
  "combo (stats (handleKeyDown ''KeyA'' onLine)) = 1 \<and>
   maxCombo (stats (handleKeyDown ''KeyA'' onLine)) = 0"
  by (simp add: onLine_def model_defs)

section \<open>The chart generator\<close>

lemma pick_Some:
  assumes "xs \<noteq> []" "0 \<le> r" "r < 1"
  shows "\<exists>p. pick xs r = Some p"
proof -
  have len: "0 < real (length xs)" using assms(1) by simp
  have "0 \<le> r * real (length xs)" using assms(2) by simp
  then have lo: "0 \<le> \<lfloor>r * real (length xs)\<rfloor>" by simp
  have "r * real (length xs) < real (length xs)" using assms(3) len by simp
  then have "\<lfloor>r * real (length xs)\<rfloor> < int (length xs)" by (simp add: floor_less_iff)
  with lo show ?thesis by (simp add: pick_def jsIndex_def)
qed

lemma selectPattern_total:
  assumes single: "filter (\<lambda>p. length p = 1) patterns \<noteq> []"
    and unit: "\<forall>r \<in> set rs. 0 \<le> r \<and> r < 1"
    and len: "2 \<le> length rs"
  shows "\<exists>p rest. selectPattern d patterns rs = Inr (p, rest) \<and>
           length rs \<le> length rest + 2 \<and> set rest \<subseteq> set rs"
proof -
  from len obtain r1 r2 rest where rs: "rs = r1 # r2 # rest"
    by (cases rs; cases "tl rs") auto
  from single have ne: "patterns \<noteq> []" by auto
  show ?thesis
  proof (cases "d = Easy")
    case True
    from single obtain s ss where s: "filter (\<lambda>p. length p = 1) patterns = s # ss"
      by (cases "filter (\<lambda>p. length p = 1) patterns") auto
    from unit rs pick_Some [OF single, of r2]
    obtain p where "pick (filter (\<lambda>p. length p = 1) patterns) r2 = Some p" by auto
    with True rs s show ?thesis
      by (auto simp: selectPattern_def Let_def jsIndex_def split: option.split)
  next
    case False
    from unit rs pick_Some [OF ne, of r1] obtain p where "pick patterns r1 = Some p" by auto
    with False rs show ?thesis by (auto simp: selectPattern_def)
  qed
qed

lemma interval_order:
  "noteIntervalMin (DIFFICULTY_SETTINGS d) \<le> noteIntervalMax (DIFFICULTY_SETTINGS d)"
  by (cases d) (simp_all add: DIFFICULTY_SETTINGS_def)

lemma generateLoop_total:
  assumes single: "filter (\<lambda>p. length p = 1) patterns \<noteq> []"
  shows "90000 - time \<le> real k * noteIntervalMin (DIFFICULTY_SETTINGS d) \<Longrightarrow>
         3 * k \<le> length rs \<Longrightarrow> \<forall>r \<in> set rs. 0 \<le> r \<and> r < 1 \<Longrightarrow>
         \<exists>res. generateLoop d patterns time nid rs acc = Inr res"
proof (induction k arbitrary: time nid rs acc)
  case 0
  then show ?case by (simp add: generateLoop.simps)
next
  case (Suc k)
  let ?mn = "noteIntervalMin (DIFFICULTY_SETTINGS d)"
  let ?mx = "noteIntervalMax (DIFFICULTY_SETTINGS d)"
  show ?case
  proof (cases "time < 90000")
    case False
    then show ?thesis by (simp add: generateLoop.simps)
  next
    case True
    from Suc.prems have "2 \<le> length rs" by simp
    from selectPattern_total [OF single Suc.prems(3) this, of d]
    obtain p rest where sel: "selectPattern d patterns rs = Inr (p, rest)"
      and l: "length rs \<le> length rest + 2" and sub: "set rest \<subseteq> set rs" by blast
    from l Suc.prems(2) obtain r rs'' where rest: "rest = r # rs''"
      by (cases rest) auto
    from sub rest Suc.prems(3) have r: "0 \<le> r" and unit: "\<forall>r \<in> set rs''. 0 \<le> r \<and> r < 1"
      by auto
    from r interval_order [of d] have "0 \<le> r * (?mx - ?mn)" by simp
    with Suc.prems(1)
    have t: "90000 - (time + (?mn + r * (?mx - ?mn))) \<le> real k * ?mn"
      by (simp add: algebra_simps)
    from l rest Suc.prems(2) have "3 * k \<le> length rs''" by simp
    from Suc.IH [OF t this unit]
    obtain res where "generateLoop d patterns (time + (?mn + r * (?mx - ?mn)))
        (nid + length p) rs'' (acc @ emit p time nid) = Inr res" by blast
    with True sel rest show ?thesis
      by (subst generateLoop.simps) simp
  qed
qed

lemma generatePatterns_single:
  "0 < lanes \<Longrightarrow> filter (\<lambda>p. length p = 1) (generatePatterns lanes d) \<noteq> []"
proof -
  assume "0 < lanes"
  then have "[0::nat] \<in> set (generatePatterns lanes d)"
    by (auto simp: generatePatterns_def Let_def)
  then show ?thesis by (force simp: filter_empty_conv)
qed

lemma generateNotes_total:
  assumes "1305 \<le> length rs" and "\<forall>r \<in> set rs. 0 \<le> r \<and> r < 1"
  shows "\<exists>chart nid'. generateNotes m d nid rs = Inr (chart, nid')"
proof -
  have "0 < lanesOf m" by (cases m) (simp_all add: lanesOf_def)
  then have single: "filter (\<lambda>p. length p = 1) (generatePatterns (lanesOf m) d) \<noteq> []"
    by (rule generatePatterns_single)
  have "(90000::real) - 3000 \<le> real (435::nat) * noteIntervalMin (DIFFICULTY_SETTINGS d)"
    by (cases d) (simp_all add: DIFFICULTY_SETTINGS_def)
  moreover from assms(1) have "3 * (435::nat) \<le> length rs" by simp
  ultimately obtain res where
    "generateLoop d (generatePatterns (lanesOf m) d) 3000 nid rs [] = Inr res"
    using generateLoop_total [OF single _ _ assms(2)] by blast
  then show ?thesis by (cases res) (simp add: generateNotes_def)
qed

lemma emit_ids: "map noteId (emit p t nid) = [nid..<nid + length p]"
  by (induction p t nid rule: emit.induct) (simp_all add: upt_rec)

lemma emit_unhit: "n \<in> set (emit p t nid) \<Longrightarrow> \<not> hit n"
  by (induction p t nid rule: emit.induct) auto

lemma generateLoop_ids:
  "generateLoop d ps time nid rs acc = Inr (ns, nid') \<Longrightarrow>
   nid \<le> nid' \<and> map noteId ns = map noteId acc @ [nid..<nid'] \<and>
   ((\<forall>n \<in> set acc. \<not> hit n) \<longrightarrow> (\<forall>n \<in> set ns. \<not> hit n))"
proof (induction d ps time nid rs acc rule: generateLoop.induct)
  case (1 d patterns time nid rs newNotes)
  show ?case
  proof (cases "time < 90000")
    case False
    with "1.prems" show ?thesis by (simp add: generateLoop.simps)
  next
    case True
    with "1.prems" obtain p r rs'' where
      sel: "selectPattern d patterns rs = Inr (p, r # rs'')"
      and rec: "generateLoop d patterns
          (time + (noteIntervalMin (DIFFICULTY_SETTINGS d)
             + r * (noteIntervalMax (DIFFICULTY_SETTINGS d)
                      - noteIntervalMin (DIFFICULTY_SETTINGS d))))
          (nid + length p) rs'' (newNotes @ emit p time nid) = Inr (ns, nid')"
      by (subst (asm) generateLoop.simps) (auto split: sum.splits list.splits)
    from "1.IH" [OF True sel refl refl rec]
    have le: "nid + length p \<le> nid'"
      and ids: "map noteId ns = map noteId (newNotes @ emit p time nid) @ [nid + length p..<nid']"
      and un: "(\<forall>n \<in> set (newNotes @ emit p time nid). \<not> hit n) \<longrightarrow> (\<forall>n \<in> set ns. \<not> hit n)"
      by simp_all
    from le have "[nid..<nid + length p] @ [nid + length p..<nid'] = [nid..<nid']"
      using upt_add_eq_append [of nid "nid + length p" "nid' - (nid + length p)"] by simp
    with ids have "map noteId ns = map noteId newNotes @ [nid..<nid']"
      by (simp add: emit_ids)
    with le un show ?thesis by (auto dest: emit_unhit)
  qed
qed

lemma generateNotes_fresh:
  assumes "generateNotes m d nid rs = Inr (chart, nid')"
  shows "distinct (map noteId chart) \<and> (\<forall>n \<in> set chart. \<not> hit n)"
proof -
  from assms obtain ns where
    loop: "generateLoop d (generatePatterns (lanesOf m) d) 3000 nid rs [] = Inr (ns, nid')"
    and chart: "chart = sort_key startTime ns"
    by (auto simp: generateNotes_def split: sum.splits)
  from generateLoop_ids [OF loop] have ids: "map noteId ns = [nid..<nid']"
    and un: "\<forall>n \<in> set ns. \<not> hit n" by simp_all
  from ids have "distinct (map noteId ns)" by simp
  then have "distinct (map noteId chart)"
    unfolding chart by (simp add: distinct_map)
  with un chart show ?thesis by simp
qed

lemma startGame_fresh:
  assumes "startGame rs g = Inr g'"
  shows "distinct (map noteId (noteList g')) \<and> (\<forall>n \<in> set (noteList g'). \<not> hit n) \<and>
         stats g' = initialStats \<and> gameState g' = Playing"
proof -
  from assms obtain chart nid' where
    gen: "generateNotes (keyMode g) (difficulty g) (noteIdRef g) rs = Inr (chart, nid')"
    and g': "g' = g\<lparr>noteList := chart, stats := initialStats, startTimeRef := 0,
                 pauseTimeRef := 0, gameState := Playing, noteIdRef := nid'\<rparr>"
    by (auto simp: startGame_def split: sum.splits)
  from generateNotes_fresh [OF gen] g' show ?thesis by simp
qed

text \<open>The cursor \<open>time\<close> never decreases when the randoms are not negative, so the notes
  are emitted in the order of their start times and the final sort returns them as
  they were emitted.\<close>

lemma selectPattern_rest:
  "selectPattern d patterns rs = Inr (p, rest) \<Longrightarrow> set rest \<subseteq> set rs"
  by (auto simp: selectPattern_def Let_def split: if_splits list.splits option.splits)

lemma emit_startTime: "n \<in> set (emit p t nid) \<Longrightarrow> startTime n = t"
  by (induction p t nid rule: emit.induct) auto

lemma interval_nonneg: "0 \<le> noteIntervalMin (DIFFICULTY_SETTINGS d)"
  by (cases d) (simp_all add: DIFFICULTY_SETTINGS_def)

lemma sorted_emit: "sorted (map startTime (emit p t nid))"
  by (induction p t nid rule: emit.induct) (auto dest: emit_startTime)

lemma generateLoop_in_order:
  "generateLoop d ps time nid rs acc = Inr (ns, nid') \<Longrightarrow>
   \<forall>r \<in> set rs. 0 \<le> r \<Longrightarrow> sorted (map startTime acc) \<Longrightarrow>
   \<forall>n \<in> set acc. startTime n \<le> time \<Longrightarrow> sorted (map startTime ns)"
proof (induction d ps time nid rs acc rule: generateLoop.induct)
  case (1 d patterns time nid rs newNotes)
  let ?mn = "noteIntervalMin (DIFFICULTY_SETTINGS d)"
  let ?mx = "noteIntervalMax (DIFFICULTY_SETTINGS d)"
  show ?case
  proof (cases "time < 90000")
    case False
    with "1.prems" show ?thesis by (simp add: generateLoop.simps)
  next
    case True
    with "1.prems"(1) obtain p r rs'' where
      sel: "selectPattern d patterns rs = Inr (p, r # rs'')"
      and rec: "generateLoop d patterns (time + (?mn + r * (?mx - ?mn)))
          (nid + length p) rs'' (newNotes @ emit p time nid) = Inr (ns, nid')"
      by (subst (asm) generateLoop.simps) (auto split: sum.splits list.splits)
    from selectPattern_rest [OF sel] "1.prems"(2)
    have r: "0 \<le> r" and nonneg: "\<forall>r \<in> set rs''. 0 \<le> r" by auto
    from r interval_order [of d] have "0 \<le> r * (?mx - ?mn)" by simp
    with interval_nonneg [of d] have step: "time \<le> time + (?mn + r * (?mx - ?mn))" by simp
    have srt: "sorted (map startTime (newNotes @ emit p time nid))"
      using "1.prems"(3,4) by (auto simp: sorted_append sorted_emit dest: emit_startTime)
    have bound: "\<forall>n \<in> set (newNotes @ emit p time nid).
        startTime n \<le> time + (?mn + r * (?mx - ?mn))"
      using "1.prems"(4) step by (auto dest: emit_startTime)
    from "1.IH" [OF True sel refl refl rec nonneg srt bound] show ?thesis .
  qed
qed

lemma generateNotes_emission_order:
  assumes "generateNotes m d nid rs = Inr (chart, nid')" and "\<forall>r \<in> set rs. 0 \<le> r"
  shows "generateLoop d (generatePatterns (lanesOf m) d) 3000 nid rs [] = Inr (chart, nid')"
proof -
  from assms(1) obtain ns where
    loop: "generateLoop d (generatePatterns (lanesOf m) d) 3000 nid rs [] = Inr (ns, nid')"
    and chart: "chart = sort_key startTime ns"
    by (auto simp: generateNotes_def split: sum.splits)
  from generateLoop_in_order [OF loop assms(2)] have "sorted (map startTime ns)" by simp
  with chart have "chart = ns" by (simp add: sort_key_id_if_sorted)
  with loop show ?thesis by simp
qed

text \<open>
  Claim C8. Every chart that \<open>generateNotes\<close> returns is sorted by non-decreasing start
  time, for every key mode, every difficulty, every starting identifier and every
  outcome of the random source. (By \<open>generateNotes_total\<close> a chart is returned whenever
  the random source yields values in the range of \<open>Math.random()\<close>.)
\<close>

theorem generateNotes_sorted:
  "generateNotes m d nid rs = Inr (chart, nid') \<Longrightarrow> sorted (map startTime chart)"
  by (auto simp: generateNotes_def split: sum.splits)

theorem generateNotes_sorted_witness:
  "\<exists>chart nid'. generateNotes Keys6 Hard 0 (replicate 1305 (1 / 2)) = Inr (chart, nid') \<and>
     sorted (map startTime chart)"
proof -
  have "\<exists>chart nid'. generateNotes Keys6 Hard 0 (replicate 1305 (1 / 2)) = Inr (chart, nid')"
    by (rule generateNotes_total) simp_all
  then obtain chart nid' where
    g: "generateNotes Keys6 Hard 0 (replicate 1305 (1 / 2)) = Inr (chart, nid')" by blast
  from generateNotes_sorted [OF g] g show ?thesis by blast
qed

end
